theory Spec2Isabelle
  imports Main "HOL-Library.AList" "HOL-Library.Char_ord" "HOL-Library.List_Lexorder"
begin

section \<open>Providers, values and exceptions\<close>

text \<open>
  A provider is a Python callable used both as a dictionary key and as a zero-argument
  factory. \<open>Callable p\<close> is a class or function named by its identity \<open>p\<close>;
  \<open>ListFactory impls\<close> is the closure \<^verbatim>\<open>lambda: [provider() for provider in impls]\<close>
  that \<^verbatim>\<open>provide_many\<close> builds. A value is an object reference or a Python list.
  What calling a class or function does is not part of the library: it is the parameter
  \<open>call\<close>, a function of the program state outside the registry (\<open>'w\<close>) that
  returns a value or raises, and the state after the call.
\<close>

datatype 'p provider = Callable 'p | ListFactory "'p provider list"

datatype 'o pyvalue = Obj 'o | PyList "'o pyvalue list"

datatype 'e exn = KeyError | TypeError | Raised 'e

type_synonym ('p, 'o, 'e, 'w) calls = "'p \<Rightarrow> 'w \<Rightarrow> ('e exn + 'o pyvalue) \<times> 'w"

text \<open>
  \<open>invoke\<close> is \<^verbatim>\<open>provider()\<close>. The list comprehension of a \<open>ListFactory\<close>
  appends each result to the list built so far and stops at the first exception.
\<close>

fun invoke :: "('p, 'o, 'e, 'w) calls \<Rightarrow> 'p provider \<Rightarrow> 'w \<Rightarrow> ('e exn + 'o pyvalue) \<times> 'w"
  and comprehension :: "('p, 'o, 'e, 'w) calls \<Rightarrow> 'p provider list \<Rightarrow> 'o pyvalue list \<Rightarrow> 'w
      \<Rightarrow> ('e exn + 'o pyvalue list) \<times> 'w"
where
  "invoke call (Callable p) w = call p w"
| "invoke call (ListFactory impls) w =
     (case comprehension call impls [] w of
        (Inl e, w') \<Rightarrow> (Inl e, w')
      | (Inr vs, w') \<Rightarrow> (Inr (PyList vs), w'))"
| "comprehension call [] acc w = (Inr acc, w)"
| "comprehension call (provider # rest) acc w =
     (case invoke call provider w of
        (Inl e, w') \<Rightarrow> (Inl e, w')
      | (Inr v, w') \<Rightarrow> comprehension call rest (acc @ [v]) w')"

section \<open>The memoizing registry of di.py\<close>

text \<open>
  The state is the singleton \<^verbatim>\<open>registry\<close> (its two dictionaries) together with the
  program state the factories act on.
\<close>

record ('p, 'o, 'w) di_state =
  bindings :: "'p provider \<rightharpoonup> 'p provider"
  instances :: "'p provider \<rightharpoonup> 'o pyvalue"
  world :: 'w

definition ProviderRegistry_init :: "'w \<Rightarrow> ('p, 'o, 'w) di_state" where
  "ProviderRegistry_init w = \<lparr>bindings = Map.empty, instances = Map.empty, world = w\<rparr>"

definition ProviderRegistry_bind ::
  "'p provider \<Rightarrow> 'p provider \<Rightarrow> ('p, 'o, 'w) di_state \<Rightarrow> ('p, 'o, 'w) di_state" where
  "ProviderRegistry_bind interface impl s = s\<lparr>bindings := (bindings s)(interface \<mapsto> impl)\<rparr>"

definition ProviderRegistry_setitem ::
  "'p provider \<Rightarrow> 'p provider \<Rightarrow> ('p, 'o, 'w) di_state \<Rightarrow> ('p, 'o, 'w) di_state" where
  "ProviderRegistry_setitem interface impl s = ProviderRegistry_bind interface impl s"

text \<open>
  \<^verbatim>\<open>get\<close>: the cached instance if there is one, else the bound factory's result; a
  missing binding raises KeyError, and an exception of the factory propagates before
  anything is stored. The store of line 47 runs on both paths.
\<close>

definition ProviderRegistry_get ::
  "('p, 'o, 'e, 'w) calls \<Rightarrow> 'p provider \<Rightarrow> ('p, 'o, 'w) di_state
     \<Rightarrow> ('e exn + 'o pyvalue) \<times> ('p, 'o, 'w) di_state" where
  "ProviderRegistry_get call interface s =
     (case instances s interface of
        Some instance \<Rightarrow>
          (Inr instance, s\<lparr>instances := (instances s)(interface \<mapsto> instance)\<rparr>)
      | None \<Rightarrow>
          (case bindings s interface of
             None \<Rightarrow> (Inl KeyError, s)
           | Some impl \<Rightarrow>
               (case invoke call impl (world s) of
                  (Inl e, w') \<Rightarrow> (Inl e, s\<lparr>world := w'\<rparr>)
                | (Inr instance, w') \<Rightarrow>
                    (Inr instance,
                     s\<lparr>instances := (instances s)(interface \<mapsto> instance), world := w'\<rparr>))))"

definition ProviderRegistry_getitem ::
  "('p, 'o, 'e, 'w) calls \<Rightarrow> 'p provider \<Rightarrow> ('p, 'o, 'w) di_state
     \<Rightarrow> ('e exn + 'o pyvalue) \<times> ('p, 'o, 'w) di_state" where
  "ProviderRegistry_getitem call interface s = ProviderRegistry_get call interface s"

subsection \<open>The module-level functions\<close>

definition bind ::
  "'p provider \<Rightarrow> 'p provider \<Rightarrow> ('p, 'o, 'w) di_state \<Rightarrow> ('p, 'o, 'w) di_state" where
  "bind interface impl s = ProviderRegistry_setitem interface impl s"

definition add :: "'p provider \<Rightarrow> ('p, 'o, 'w) di_state \<Rightarrow> ('p, 'o, 'w) di_state" where
  "add provider s = bind provider provider s"

text \<open>
  An argument of \<^verbatim>\<open>bind_all\<close> is \<^verbatim>\<open>AnyBinding | AnyProvider\<close>: a pair
  (the \<^verbatim>\<open>isinstance(provider, tuple)\<close> branch) or a bare provider.
\<close>

datatype 'p bind_arg = Bare "'p provider" | Binding "'p provider \<times> 'p provider"

fun bind_all :: "'p bind_arg list \<Rightarrow> ('p, 'o, 'w) di_state \<Rightarrow> ('p, 'o, 'w) di_state" where
  "bind_all [] s = s"
| "bind_all (Binding (interface, impl) # providers) s = bind_all providers (bind interface impl s)"
| "bind_all (Bare provider # providers) s = bind_all providers (bind provider provider s)"

definition get ::
  "('p, 'o, 'e, 'w) calls \<Rightarrow> 'p provider \<Rightarrow> ('p, 'o, 'w) di_state
     \<Rightarrow> ('e exn + 'o pyvalue) \<times> ('p, 'o, 'w) di_state" where
  "get call interface s = ProviderRegistry_getitem call interface s"

definition provide_many :: "'p provider \<Rightarrow> 'p provider list \<Rightarrow> 'p provider \<times> 'p provider" where
  "provide_many interface impls = (interface, ListFactory impls)"

section \<open>The registry of di/registry.py\<close>

record ('p, 'w) registry_state =
  r_bindings :: "'p provider \<rightharpoonup> 'p provider"
  r_world :: 'w

definition registry_bind ::
  "'p provider \<Rightarrow> 'p provider \<Rightarrow> ('p, 'w) registry_state \<Rightarrow> ('p, 'w) registry_state" where
  "registry_bind interface impl r = r\<lparr>r_bindings := (r_bindings r)(interface \<mapsto> impl)\<rparr>"

definition registry_setitem ::
  "'p provider \<Rightarrow> 'p provider \<Rightarrow> ('p, 'w) registry_state \<Rightarrow> ('p, 'w) registry_state" where
  "registry_setitem interface impl r = registry_bind interface impl r"

definition registry_get ::
  "('p, 'o, 'e, 'w) calls \<Rightarrow> 'p provider \<Rightarrow> ('p, 'w) registry_state
     \<Rightarrow> ('e exn + 'o pyvalue) \<times> ('p, 'w) registry_state" where
  "registry_get call interface r =
     (case r_bindings r interface of
        None \<Rightarrow> (Inl KeyError, r)
      | Some impl \<Rightarrow>
          (case invoke call impl (r_world r) of (res, w') \<Rightarrow> (res, r\<lparr>r_world := w'\<rparr>)))"

definition registry_getitem ::
  "('p, 'o, 'e, 'w) calls \<Rightarrow> 'p provider \<Rightarrow> ('p, 'w) registry_state
     \<Rightarrow> ('e exn + 'o pyvalue) \<times> ('p, 'w) registry_state" where
  "registry_getitem call interface r = registry_get call interface r"

section \<open>Injection\<close>

text \<open>
  A wrapped callable: its parameters in order, each with its annotation if it has one, its
  return annotation, and what calling it with positional and keyword arguments does.
  Keyword arguments are a Python dictionary in insertion order.
\<close>

type_synonym 'o kwargs = "(string \<times> 'o pyvalue) list"

record ('p, 'o, 'e, 'w) pyfunc =
  fn_params :: "(string \<times> 'p provider option) list"
  fn_return :: "'p provider option"
  fn_call :: "'o pyvalue list \<Rightarrow> 'o kwargs \<Rightarrow> 'w \<Rightarrow> ('e exn + 'o pyvalue) \<times> 'w"

text \<open>
  \<^verbatim>\<open>inspect.getfullargspec(func).annotations\<close> (Python's standard library): a dictionary
  that receives the return annotation first, under the name \<^verbatim>\<open>return\<close>, and then every
  annotated parameter in order.
\<close>

fun annotate ::
  "(string \<times> 'p provider) list \<Rightarrow> string \<times> 'p provider option \<Rightarrow> (string \<times> 'p provider) list" where
  "annotate d (name, None) = d"
| "annotate d (name, Some annotation) = AList.update name annotation d"

definition getfullargspec_annotations ::
  "('p, 'o, 'e, 'w) pyfunc \<Rightarrow> (string \<times> 'p provider) list" where
  "getfullargspec_annotations func =
     foldl annotate
       (case fn_return func of None \<Rightarrow> [] | Some r \<Rightarrow> [(''return'', r)])
       (fn_params func)"

text \<open>
  The loop of \<^verbatim>\<open>wrapper\<close>: an annotation that is a key of the binding table, under a
  name that is not yet a keyword argument, is resolved through the registry and stored in
  \<^verbatim>\<open>kwargs\<close>. An exception of the resolution leaves the wrapper at once.
\<close>

fun wrapper_loop ::
  "('p, 'o, 'e, 'w) calls \<Rightarrow> (string \<times> 'p provider) list \<Rightarrow> 'o kwargs \<Rightarrow> ('p, 'o, 'w) di_state
     \<Rightarrow> ('e exn + 'o kwargs) \<times> ('p, 'o, 'w) di_state" where
  "wrapper_loop call [] kwargs s = (Inr kwargs, s)"
| "wrapper_loop call ((name, provider) # items) kwargs s =
     (if bindings s provider \<noteq> None \<and> map_of kwargs name = None
      then (case ProviderRegistry_getitem call provider s of
              (Inl e, s') \<Rightarrow> (Inl e, s')
            | (Inr v, s') \<Rightarrow> wrapper_loop call items (AList.update name v kwargs) s')
      else wrapper_loop call items kwargs s)"

definition inject ::
  "('p, 'o, 'e, 'w) calls \<Rightarrow> ('p, 'o, 'e, 'w) pyfunc \<Rightarrow> 'o pyvalue list \<Rightarrow> 'o kwargs
     \<Rightarrow> ('p, 'o, 'w) di_state \<Rightarrow> ('e exn + 'o pyvalue) \<times> ('p, 'o, 'w) di_state" where
  "inject call func args kwargs s =
     (case wrapper_loop call (getfullargspec_annotations func) kwargs s of
        (Inl e, s') \<Rightarrow> (Inl e, s')
      | (Inr kwargs', s') \<Rightarrow>
          (case fn_call func args kwargs' (world s') of (res, w') \<Rightarrow> (res, s'\<lparr>world := w'\<rparr>)))"

text \<open>
  Python's calling convention for a function defined with positional-or-keyword
  parameters and no defaults: too many positional arguments, an unexpected keyword, a
  parameter given both by position and by keyword, and a missing argument are each a
  TypeError raised before the body runs.
\<close>

definition bind_arguments :: "string list \<Rightarrow> 'o pyvalue list \<Rightarrow> 'o kwargs \<Rightarrow> 'e exn + 'o kwargs" where
  "bind_arguments names args kwargs =
     (if length names < length args then Inl TypeError
      else if list_ex (\<lambda>k. k \<notin> set names) (map fst kwargs) then Inl TypeError
      else if list_ex (\<lambda>k. k \<in> set (take (length args) names)) (map fst kwargs) then Inl TypeError
      else if list_ex (\<lambda>n. map_of kwargs n = None) (drop (length args) names) then Inl TypeError
      else Inr (zip names args @ kwargs))"

definition py_def ::
  "(string \<times> 'p provider option) list \<Rightarrow> 'p provider option
     \<Rightarrow> ('o kwargs \<Rightarrow> 'w \<Rightarrow> ('e exn + 'o pyvalue) \<times> 'w) \<Rightarrow> ('p, 'o, 'e, 'w) pyfunc" where
  "py_def params ret body =
     \<lparr>fn_params = params, fn_return = ret,
      fn_call = (\<lambda>args kwargs w.
        case bind_arguments (map fst params) args kwargs of
          Inl e \<Rightarrow> (Inl e, w)
        | Inr locals \<Rightarrow> body locals w)\<rparr>"

section \<open>Client programs\<close>

text \<open>
  A client is a sequence of calls to the module's functions; it goes on after a
  \<^verbatim>\<open>get\<close> that raised.
\<close>

datatype 'p op = Bind "'p provider" "'p provider" | BindAll "'p bind_arg list" | Get "'p provider"

fun run_op ::
  "('p, 'o, 'e, 'w) calls \<Rightarrow> 'p op \<Rightarrow> ('p, 'o, 'w) di_state \<Rightarrow> ('p, 'o, 'w) di_state" where
  "run_op call (Bind interface impl) s = bind interface impl s"
| "run_op call (BindAll providers) s = bind_all providers s"
| "run_op call (Get interface) s = snd (get call interface s)"

fun run_ops ::
  "('p, 'o, 'e, 'w) calls \<Rightarrow> 'p op list \<Rightarrow> ('p, 'o, 'w) di_state \<Rightarrow> ('p, 'o, 'w) di_state" where
  "run_ops call [] s = s"
| "run_ops call (x # xs) s = run_ops call xs (run_op call x s)"

section \<open>The domain mixins of domain/__init__.py\<close>

subsection \<open>Primitive\<close>

text \<open>
  The schema engine is pydantic: \<open>validate v\<close> is what
  \<^verbatim>\<open>create_model("Validator", v=(cls, ...))(v=value)\<close> does for the class at hand,
  \<open>None\<close> when it accepts the value and \<open>Some err\<close> when it raises
  ValidationError \<open>err\<close>.
\<close>

definition Primitive_parse :: "('v \<Rightarrow> 'err option) \<Rightarrow> 'v \<Rightarrow> 'err + 'v" where
  "Primitive_parse validate value = (case validate value of Some err \<Rightarrow> Inl err | None \<Rightarrow> Inr value)"

text \<open>
  Modelled from the spec: the module \<^verbatim>\<open>deepblu.result\<close> (\<^verbatim>\<open>Result\<close>,
  \<^verbatim>\<open>monadic\<close>, \<^verbatim>\<open>is_ok\<close>) is not among the sources. The spec describes a
  two-variant container, success carrying a value and failure carrying an error, a
  combinator that lifts a raising function into one returning the container, and the
  predicate \<^verbatim>\<open>is_ok\<close>.
\<close>

datatype ('a, 'err) Result = Ok 'a | Err 'err

definition monadic :: "('x \<Rightarrow> 'err + 'a) \<Rightarrow> 'x \<Rightarrow> ('a, 'err) Result" where
  "monadic f x = (case f x of Inr v \<Rightarrow> Ok v | Inl err \<Rightarrow> Err err)"

fun is_ok :: "('a, 'err) Result \<Rightarrow> bool" where
  "is_ok (Ok v) = True"
| "is_ok (Err err) = False"

definition Primitive_monadic_parse :: "('v \<Rightarrow> 'err option) \<Rightarrow> 'v \<Rightarrow> ('v, 'err) Result" where
  "Primitive_monadic_parse validate value = monadic (Primitive_parse validate) value"

definition Primitive_is_valid :: "('v \<Rightarrow> 'err option) \<Rightarrow> 'v \<Rightarrow> bool" where
  "Primitive_is_valid validate value = is_ok (Primitive_monadic_parse validate value)"

subsection \<open>ValueObject\<close>






text \<open>
  Python's \<^verbatim>\<open>hash\<close> is a parameter: \<open>hs\<close> on strings, \<open>hv\<close> on field values
  (\<open>None\<close> for an unhashable value, a TypeError) and \<open>ht\<close>, which combines the
  hashes of a tuple's elements. The hash of the tuple of items hashes every item, itself
  the tuple of a name and a value, in order.
\<close>

fun hash_items ::
  "(string \<Rightarrow> int) \<Rightarrow> ('v \<Rightarrow> int option) \<Rightarrow> (int list \<Rightarrow> int) \<Rightarrow> (string \<times> 'v) list
     \<Rightarrow> unit exn + int list" where
  "hash_items hs hv ht [] = Inr []"
| "hash_items hs hv ht ((name, v) # items) =
     (case hv v of
        None \<Rightarrow> Inl TypeError
      | Some h \<Rightarrow>
          (case hash_items hs hv ht items of
             Inl e \<Rightarrow> Inl e
           | Inr hl \<Rightarrow> Inr (ht [hs name, h] # hl)))"


section \<open>What the specification says, as definitions\<close>

text \<open>
  These follow the words of the specification, not the code; the theorems compare them
  with the functions above. \<^verbatim>\<open>bind_all\<close> applies each entry in the given order, a bare
  provider through \<^verbatim>\<open>add\<close> and a pair through \<^verbatim>\<open>bind\<close>.
\<close>

fun spec_apply_entry :: "('p, 'o, 'w) di_state \<Rightarrow> 'p bind_arg \<Rightarrow> ('p, 'o, 'w) di_state" where
  "spec_apply_entry s (Bare provider) = add provider s"
| "spec_apply_entry s (Binding (interface, impl)) = bind interface impl s"

definition spec_bind_all :: "'p bind_arg list \<Rightarrow> ('p, 'o, 'w) di_state \<Rightarrow> ('p, 'o, 'w) di_state" where
  "spec_bind_all providers s = foldl spec_apply_entry s providers"

fun entry_key :: "'p bind_arg \<Rightarrow> 'p provider" where
  "entry_key (Bare provider) = provider"
| "entry_key (Binding (interface, impl)) = interface"

fun entry_impl :: "'p bind_arg \<Rightarrow> 'p provider" where
  "entry_impl (Bare provider) = provider"
| "entry_impl (Binding (interface, impl)) = impl"

text \<open>
  The factory of \<^verbatim>\<open>provide_many\<close> invokes each element of \<^verbatim>\<open>impls\<close> in order and
  collects the results.
\<close>

fun spec_collect ::
  "('p, 'o, 'e, 'w) calls \<Rightarrow> 'p provider list \<Rightarrow> 'w \<Rightarrow> ('e exn + 'o pyvalue list) \<times> 'w" where
  "spec_collect call [] w = (Inr [], w)"
| "spec_collect call (f # fs) w =
     (case invoke call f w of
        (Inl e, w') \<Rightarrow> (Inl e, w')
      | (Inr v, w') \<Rightarrow>
          (case spec_collect call fs w' of
             (Inl e, w'') \<Rightarrow> (Inl e, w'')
           | (Inr vs, w'') \<Rightarrow> (Inr (v # vs), w'')))"

section \<open>Concrete programs\<close>

text \<open>
  Classes are numbers, the program state counts the objects created so far, and
  constructing class \<open>p\<close> in state \<open>w\<close> creates the object \<open>(p, w)\<close>; class 0
  raises in its constructor.
\<close>

definition demo_call :: "(nat, nat \<times> nat, unit, nat) calls" where
  "demo_call p w = (if p = 0 then (Inl (Raised ()), Suc w) else (Inr (Obj (p, w)), Suc w))"

definition demo_body :: "(nat \<times> nat) kwargs \<Rightarrow> nat \<Rightarrow> (unit exn + (nat \<times> nat) pyvalue) \<times> nat" where
  "demo_body locals w = (case map_of locals ''repo'' of None \<Rightarrow> (Inl KeyError, w) | Some v \<Rightarrow> (Inr v, w))"

text \<open>\<^verbatim>\<open>def service(repo: C1): return repo\<close> and the same with \<^verbatim>\<open>-> C2\<close>.\<close>

definition demo_service :: "(nat, nat \<times> nat, unit, nat) pyfunc" where
  "demo_service = py_def [(''repo'', Some (Callable 1))] None demo_body"

definition demo_typed_service :: "(nat, nat \<times> nat, unit, nat) pyfunc" where
  "demo_typed_service = py_def [(''repo'', Some (Callable 1))] (Some (Callable 2)) demo_body"

definition demo_validate :: "int \<Rightarrow> string option" where
  "demo_validate v = (if 0 < v then None else Some ''ensure this value is greater than 0'')"





section \<open>Properties of the registries\<close>

lemma bind_simps:
  "bindings (bind k f s) = (bindings s)(k \<mapsto> f)"
  "instances (bind k f s) = instances s"
  "world (bind k f s) = world s"
  by (simp_all add: bind_def ProviderRegistry_setitem_def ProviderRegistry_bind_def)

lemma get_is_method: "get call k s = ProviderRegistry_get call k s"
  by (simp add: get_def ProviderRegistry_getitem_def)

lemma get_cached:
  "instances s k = Some v \<Longrightarrow> ProviderRegistry_get call k s = (Inr v, s)"
  by (simp add: ProviderRegistry_get_def map_upd_triv)

lemma get_keeps_instances:
  "instances s k = Some v \<Longrightarrow> instances (snd (ProviderRegistry_get call j s)) k = Some v"
  by (auto simp: ProviderRegistry_get_def split: option.splits sum.splits prod.splits)

lemma get_keeps_bindings:
  "bindings (snd (ProviderRegistry_get call j s)) = bindings s"
  by (auto simp: ProviderRegistry_get_def split: option.splits sum.splits prod.splits)

lemma get_result_cached:
  "ProviderRegistry_get call k s = (Inr v, s') \<Longrightarrow> instances s' k = Some v"
  by (auto simp: ProviderRegistry_get_def split: option.splits sum.splits prod.splits)

lemma bind_all_instances: "instances (bind_all ps s) = instances s"
  by (induction ps s rule: bind_all.induct) (simp_all add: bind_simps)

lemma bind_all_world: "world (bind_all ps s) = world s"
  by (induction ps s rule: bind_all.induct) (simp_all add: bind_simps)

lemma bind_all_keeps_bound: "bindings s k \<noteq> None \<Longrightarrow> bindings (bind_all ps s) k \<noteq> None"
  by (induction ps s rule: bind_all.induct) (simp_all add: bind_simps)

lemma run_op_keeps_instances:
  "instances s k = Some v \<Longrightarrow> instances (run_op call x s) k = Some v"
  by (cases x) (simp_all add: bind_simps bind_all_instances get_is_method get_keeps_instances)

lemma run_ops_keeps_instances:
  "instances s k = Some v \<Longrightarrow> instances (run_ops call xs s) k = Some v"
  by (induction xs arbitrary: s) (simp_all add: run_op_keeps_instances)

text \<open>
  C1. After \<^verbatim>\<open>bind(k, f)\<close>, the first \<^verbatim>\<open>get(k)\<close> of the memoizing registry (no
  instance of \<open>k\<close> is cached yet) is the call of \<open>f\<close>: it returns what \<open>f\<close>
  returns, or raises what \<open>f\<close> raises, in the program state \<open>f\<close> leaves, and a
  returned object is cached. Once that \<^verbatim>\<open>get(k)\<close> has returned \<open>v\<close>, every
  later \<^verbatim>\<open>get(k)\<close>, after any further calls of the client, returns the same \<open>v\<close>
  and changes nothing: \<open>f\<close> is not called again. In the registry of di/registry.py
  every \<^verbatim>\<open>get(k)\<close> is the call of the bound \<open>f\<close>, and the binding stays.
\<close>

theorem first_get_invokes_later_gets_cached:
  "(instances s k = None \<longrightarrow>
      ProviderRegistry_get call k (ProviderRegistry_bind k f s) =
        (case invoke call f (world s) of
           (Inl e, w') \<Rightarrow> (Inl e, (ProviderRegistry_bind k f s)\<lparr>world := w'\<rparr>)
         | (Inr v, w') \<Rightarrow>
             (Inr v, (ProviderRegistry_bind k f s)\<lparr>instances := (instances s)(k \<mapsto> v), world := w'\<rparr>)))
   \<and> (ProviderRegistry_get call k (ProviderRegistry_bind k f s) = (Inr v, s1) \<longrightarrow>
        ProviderRegistry_get call k (run_ops call xs s1) = (Inr v, run_ops call xs s1))
   \<and> (r_bindings r k = Some f \<longrightarrow>
        registry_get call k r =
          (case invoke call f (r_world r) of (res, w') \<Rightarrow> (res, r\<lparr>r_world := w'\<rparr>))
        \<and> r_bindings (snd (registry_get call k r)) k = Some f)
   \<and> r_bindings (registry_bind k f r) k = Some f"
proof (intro conjI impI)
  assume "instances s k = None"
  then show "ProviderRegistry_get call k (ProviderRegistry_bind k f s) =
        (case invoke call f (world s) of
           (Inl e, w') \<Rightarrow> (Inl e, (ProviderRegistry_bind k f s)\<lparr>world := w'\<rparr>)
         | (Inr v, w') \<Rightarrow>
             (Inr v, (ProviderRegistry_bind k f s)\<lparr>instances := (instances s)(k \<mapsto> v), world := w'\<rparr>))"
    by (simp add: ProviderRegistry_get_def ProviderRegistry_bind_def split: prod.splits sum.splits)
next
  assume "ProviderRegistry_get call k (ProviderRegistry_bind k f s) = (Inr v, s1)"
  then have "instances s1 k = Some v" by (rule get_result_cached)
  then have "instances (run_ops call xs s1) k = Some v" by (rule run_ops_keeps_instances)
  then show "ProviderRegistry_get call k (run_ops call xs s1) = (Inr v, run_ops call xs s1)"
    by (rule get_cached)
next
  assume "r_bindings r k = Some f"
  then show "registry_get call k r =
          (case invoke call f (r_world r) of (res, w') \<Rightarrow> (res, r\<lparr>r_world := w'\<rparr>))"
    by (simp add: registry_get_def)
next
  assume "r_bindings r k = Some f"
  then show "r_bindings (snd (registry_get call k r)) k = Some f"
    by (simp add: registry_get_def split: prod.splits)
next
  show "r_bindings (registry_bind k f r) k = Some f" by (simp add: registry_bind_def)
qed

lemmas demo_defs = demo_call_def ProviderRegistry_init_def ProviderRegistry_bind_def
  ProviderRegistry_get_def ProviderRegistry_getitem_def ProviderRegistry_setitem_def
  bind_def get_def registry_get_def registry_bind_def

theorem first_get_invokes_later_gets_cached_witness:
  "instances (ProviderRegistry_init 0 :: (nat, nat \<times> nat, nat) di_state) (Callable 5) = None
   \<and> fst (ProviderRegistry_get demo_call (Callable 5)
        (ProviderRegistry_bind (Callable 5) (Callable 2) (ProviderRegistry_init 0))) = Inr (Obj (2, 0))
   \<and> world (snd (ProviderRegistry_get demo_call (Callable 5)
        (ProviderRegistry_bind (Callable 5) (Callable 2) (ProviderRegistry_init 0)))) = 1
   \<and> ProviderRegistry_get demo_call (Callable 5)
        (run_ops demo_call [Get (Callable 5), Bind (Callable 6) (Callable 3), Get (Callable 6)]
          (snd (ProviderRegistry_get demo_call (Callable 5)
            (ProviderRegistry_bind (Callable 5) (Callable 2) (ProviderRegistry_init 0)))))
      = (Inr (Obj (2, 0)),
         run_ops demo_call [Get (Callable 5), Bind (Callable 6) (Callable 3), Get (Callable 6)]
          (snd (ProviderRegistry_get demo_call (Callable 5)
            (ProviderRegistry_bind (Callable 5) (Callable 2) (ProviderRegistry_init 0)))))
   \<and> world (run_ops demo_call [Get (Callable 5), Bind (Callable 6) (Callable 3), Get (Callable 6)]
          (snd (ProviderRegistry_get demo_call (Callable 5)
            (ProviderRegistry_bind (Callable 5) (Callable 2) (ProviderRegistry_init 0))))) = 2
   \<and> fst (registry_get demo_call (Callable 5)
        (registry_bind (Callable 5) (Callable 2) \<lparr>r_bindings = Map.empty, r_world = 0\<rparr>)) = Inr (Obj (2, 0))
   \<and> fst (registry_get demo_call (Callable 5) (snd (registry_get demo_call (Callable 5)
        (registry_bind (Callable 5) (Callable 2) \<lparr>r_bindings = Map.empty, r_world = 0\<rparr>)))) = Inr (Obj (2, 1))"
  using first_get_invokes_later_gets_cached
    [of "ProviderRegistry_init 0 :: (nat, nat \<times> nat, nat) di_state" "Callable 5" demo_call "Callable 2"
        "Obj (2, 0)"
        "snd (ProviderRegistry_get demo_call (Callable 5)
            (ProviderRegistry_bind (Callable 5) (Callable 2) (ProviderRegistry_init 0)))"
        "[Get (Callable 5), Bind (Callable 6) (Callable 3), Get (Callable 6)]"
        "registry_bind (Callable 5) (Callable 2) \<lparr>r_bindings = Map.empty, r_world = 0\<rparr>"]
  by (simp add: demo_defs)

lemma get_uncached_stays_unless_bound:
  "instances s j = None \<Longrightarrow> i \<noteq> j \<or> bindings s j = None \<Longrightarrow>
   instances (snd (ProviderRegistry_get call i s)) j = None"
  by (auto simp: ProviderRegistry_get_def split: option.splits sum.splits prod.splits)

lemma bind_all_unbound: "bindings (bind_all ps s) k = None \<Longrightarrow> bindings s k = None"
  using bind_all_keeps_bound [of s k ps] by blast

lemma run_op_cache_bound:
  assumes "\<forall>j. bindings s j = None \<longrightarrow> instances s j = None"
  shows "\<forall>j. bindings (run_op call x s) j = None \<longrightarrow> instances (run_op call x s) j = None"
proof (cases x)
  case (Bind i m)
  with assms show ?thesis by (simp add: bind_simps)
next
  case (BindAll ps)
  with assms show ?thesis by (auto simp: bind_all_instances dest: bind_all_unbound)
next
  case (Get i)
  with assms show ?thesis
    by (simp add: get_is_method get_keeps_bindings get_uncached_stays_unless_bound)
qed

lemma run_ops_cache_bound:
  "\<forall>j. bindings s j = None \<longrightarrow> instances s j = None \<Longrightarrow>
   \<forall>j. bindings (run_ops call xs s) j = None \<longrightarrow> instances (run_ops call xs s) j = None"
proof (induction xs arbitrary: s)
  case Nil
  then show ?case by simp
next
  case (Cons x xs)
  from Cons.prems have "\<forall>j. bindings (run_op call x s) j = None \<longrightarrow> instances (run_op call x s) j = None"
    by (rule run_op_cache_bound)
  then show ?case using Cons.IH by simp
qed

lemma run_op_uncached:
  "instances s k = None \<Longrightarrow> x \<noteq> Get k \<Longrightarrow> instances (run_op call x s) k = None"
  by (cases x) (auto simp: bind_simps bind_all_instances get_is_method get_uncached_stays_unless_bound)

lemma run_ops_uncached:
  "instances s k = None \<Longrightarrow> Get k \<notin> set xs \<Longrightarrow> instances (run_ops call xs s) k = None"
  by (induction xs arbitrary: s) (auto simp: run_op_uncached)

text \<open>
  C2, as stated, fails on the memoizing registry: \<^verbatim>\<open>bind(C5, C1)\<close>, \<^verbatim>\<open>get(C5)\<close>,
  \<^verbatim>\<open>bind(C5, C2)\<close>, \<^verbatim>\<open>get(C5)\<close>. The binding table holds \<open>C2\<close>, yet the last
  \<^verbatim>\<open>get\<close> returns the object \<open>(1, 0)\<close> that \<open>C1\<close> made; calling \<open>C2\<close> there
  would have made \<open>(2, 1)\<close>.
\<close>

theorem rebind_after_get_counterexample:
  "fst (get demo_call (Callable 5)
     (bind (Callable 5) (Callable 2)
       (snd (get demo_call (Callable 5)
         (bind (Callable 5) (Callable 1) (ProviderRegistry_init 0)))))) = Inr (Obj (1, 0))
   \<and> bindings (bind (Callable 5) (Callable 2)
       (snd (get demo_call (Callable 5)
         (bind (Callable 5) (Callable 1) (ProviderRegistry_init 0))))) (Callable 5) = Some (Callable 2)
   \<and> world (snd (get demo_call (Callable 5)
         (bind (Callable 5) (Callable 1) (ProviderRegistry_init 0)))) = 1
   \<and> fst (invoke demo_call (Callable 2) 1) = Inr (Obj (2, 1))"
  by (simp add: demo_defs)

text \<open>
  C2, amended. After any calls \<open>xs\<close> of the client (among them the first
  \<^verbatim>\<open>bind(k, f1)\<close>), a further \<^verbatim>\<open>bind(k, f2)\<close> makes \<open>f2\<close> the factory bound to
  \<open>k\<close>. With no instance of \<open>k\<close> cached at that point, as when \<open>k\<close> was never
  resolved before, the next \<^verbatim>\<open>get(k)\<close> is the call of \<open>f2\<close>. With an instance
  \<open>v\<close> cached, as after a \<^verbatim>\<open>get(k)\<close> between the two binds, \<^verbatim>\<open>get(k)\<close> returns
  \<open>v\<close> and does not call \<open>f2\<close>. In the registry of di/registry.py the next
  \<^verbatim>\<open>get(k)\<close> is always the call of \<open>f2\<close>.
\<close>

theorem rebind_replaces_get_follows_cache:
  "bindings (bind k f2 (run_ops call xs s0)) k = Some f2
   \<and> (instances (run_ops call xs s0) k = None \<longrightarrow>
        get call k (bind k f2 (run_ops call xs s0)) =
          (case invoke call f2 (world (run_ops call xs s0)) of
             (Inl e, w') \<Rightarrow> (Inl e, (bind k f2 (run_ops call xs s0))\<lparr>world := w'\<rparr>)
           | (Inr v, w') \<Rightarrow>
               (Inr v, (bind k f2 (run_ops call xs s0))
                  \<lparr>instances := (instances (run_ops call xs s0))(k \<mapsto> v), world := w'\<rparr>)))
   \<and> (instances s0 k = None \<and> Get k \<notin> set xs \<longrightarrow> instances (run_ops call xs s0) k = None)
   \<and> (instances (run_ops call xs s0) k = Some v \<longrightarrow>
        get call k (bind k f2 (run_ops call xs s0)) = (Inr v, bind k f2 (run_ops call xs s0)))
   \<and> registry_get call k (registry_bind k f2 r) =
        (case invoke call f2 (r_world r) of
           (res, w') \<Rightarrow> (res, (registry_bind k f2 r)\<lparr>r_world := w'\<rparr>))"
proof (intro conjI impI)
  show "bindings (bind k f2 (run_ops call xs s0)) k = Some f2" by (simp add: bind_simps)
next
  assume "instances (run_ops call xs s0) k = None"
  then show "get call k (bind k f2 (run_ops call xs s0)) =
          (case invoke call f2 (world (run_ops call xs s0)) of
             (Inl e, w') \<Rightarrow> (Inl e, (bind k f2 (run_ops call xs s0))\<lparr>world := w'\<rparr>)
           | (Inr v, w') \<Rightarrow>
               (Inr v, (bind k f2 (run_ops call xs s0))
                  \<lparr>instances := (instances (run_ops call xs s0))(k \<mapsto> v), world := w'\<rparr>))"
    by (simp add: get_is_method ProviderRegistry_get_def bind_simps split: prod.splits sum.splits)
next
  assume "instances s0 k = None \<and> Get k \<notin> set xs"
  then show "instances (run_ops call xs s0) k = None" by (simp add: run_ops_uncached)
next
  assume "instances (run_ops call xs s0) k = Some v"
  then have "instances (bind k f2 (run_ops call xs s0)) k = Some v" by (simp add: bind_simps)
  then show "get call k (bind k f2 (run_ops call xs s0)) = (Inr v, bind k f2 (run_ops call xs s0))"
    by (simp add: get_is_method get_cached)
next
  show "registry_get call k (registry_bind k f2 r) =
        (case invoke call f2 (r_world r) of
           (res, w') \<Rightarrow> (res, (registry_bind k f2 r)\<lparr>r_world := w'\<rparr>))"
    by (simp add: registry_get_def registry_bind_def)
qed

theorem rebind_replaces_get_follows_cache_witness:
  "instances (ProviderRegistry_init 0 :: (nat, nat \<times> nat, nat) di_state) (Callable 5) = None
   \<and> Get (Callable (5::nat)) \<notin> set [Bind (Callable 5) (Callable 1), Get (Callable 6)]
   \<and> fst (get demo_call (Callable 5) (bind (Callable 5) (Callable 2)
        (run_ops demo_call [Bind (Callable 5) (Callable 1), Get (Callable 6)] (ProviderRegistry_init 0))))
      = Inr (Obj (2, 0))
   \<and> instances (run_ops demo_call [Bind (Callable 5) (Callable 1), Get (Callable 5)] (ProviderRegistry_init 0))
        (Callable 5) = Some (Obj (1, 0))
   \<and> fst (get demo_call (Callable 5) (bind (Callable 5) (Callable 2)
        (run_ops demo_call [Bind (Callable 5) (Callable 1), Get (Callable 5)] (ProviderRegistry_init 0))))
      = Inr (Obj (1, 0))
   \<and> fst (registry_get demo_call (Callable 5) (registry_bind (Callable 5) (Callable 2)
        (snd (registry_get demo_call (Callable 5)
          (registry_bind (Callable 5) (Callable 1) \<lparr>r_bindings = Map.empty, r_world = 0\<rparr>)))))
      = Inr (Obj (2, 1))"
  using rebind_replaces_get_follows_cache
      [of "Callable 5" "Callable 2" demo_call "[Bind (Callable 5) (Callable 1), Get (Callable 6)]"
          "ProviderRegistry_init 0" "Obj (1, 0)"
          "snd (registry_get demo_call (Callable 5)
            (registry_bind (Callable 5) (Callable 1) \<lparr>r_bindings = Map.empty, r_world = 0\<rparr>))"]
    rebind_replaces_get_follows_cache
      [of "Callable 5" "Callable 2" demo_call "[Bind (Callable 5) (Callable 1), Get (Callable 5)]"
          "ProviderRegistry_init 0" "Obj (1, 0)"
          "snd (registry_get demo_call (Callable 5)
            (registry_bind (Callable 5) (Callable 1) \<lparr>r_bindings = Map.empty, r_world = 0\<rparr>))"]
  by (simp add: demo_defs)

lemma run_ops_init_cache_bound:
  "bindings (run_ops call xs (ProviderRegistry_init w)) j = None \<Longrightarrow>
   instances (run_ops call xs (ProviderRegistry_init w)) j = None"
  using run_ops_cache_bound [of "ProviderRegistry_init w" call xs]
  by (simp add: ProviderRegistry_init_def)

text \<open>
  C3. In every state a client can reach from the empty registry, \<^verbatim>\<open>get\<close> of a key
  with no binding raises KeyError and changes nothing, through the method, through item
  access and through the module's function; so does the registry of di/registry.py.
  No value is returned.
\<close>

theorem unbound_get_raises_KeyError:
  "(bindings (run_ops call xs (ProviderRegistry_init w)) k = None \<longrightarrow>
      ProviderRegistry_get call k (run_ops call xs (ProviderRegistry_init w))
        = (Inl KeyError, run_ops call xs (ProviderRegistry_init w))
      \<and> ProviderRegistry_getitem call k (run_ops call xs (ProviderRegistry_init w))
        = (Inl KeyError, run_ops call xs (ProviderRegistry_init w))
      \<and> get call k (run_ops call xs (ProviderRegistry_init w))
        = (Inl KeyError, run_ops call xs (ProviderRegistry_init w)))
   \<and> (r_bindings r k = None \<longrightarrow>
      registry_get call k r = (Inl KeyError, r) \<and> registry_getitem call k r = (Inl KeyError, r))"
proof (intro conjI impI)
  assume unbound: "bindings (run_ops call xs (ProviderRegistry_init w)) k = None"
  then have uncached: "instances (run_ops call xs (ProviderRegistry_init w)) k = None"
    by (rule run_ops_init_cache_bound)
  from unbound uncached
  show m: "ProviderRegistry_get call k (run_ops call xs (ProviderRegistry_init w))
        = (Inl KeyError, run_ops call xs (ProviderRegistry_init w))"
    by (simp add: ProviderRegistry_get_def)
  then show "ProviderRegistry_getitem call k (run_ops call xs (ProviderRegistry_init w))
        = (Inl KeyError, run_ops call xs (ProviderRegistry_init w))"
    by (simp add: ProviderRegistry_getitem_def)
  from m show "get call k (run_ops call xs (ProviderRegistry_init w))
        = (Inl KeyError, run_ops call xs (ProviderRegistry_init w))"
    by (simp add: get_is_method)
next
  assume "r_bindings r k = None"
  then show "registry_get call k r = (Inl KeyError, r)" by (simp add: registry_get_def)
next
  assume "r_bindings r k = None"
  then show "registry_getitem call k r = (Inl KeyError, r)"
    by (simp add: registry_getitem_def registry_get_def)
qed

theorem unbound_get_raises_KeyError_witness:
  "bindings (run_ops demo_call [Bind (Callable 5) (Callable 1), Get (Callable 5), Get (Callable 7)]
       (ProviderRegistry_init 0)) (Callable 6) = None
   \<and> fst (get demo_call (Callable 6)
       (run_ops demo_call [Bind (Callable 5) (Callable 1), Get (Callable 5), Get (Callable 7)]
         (ProviderRegistry_init 0))) = Inl KeyError
   \<and> r_bindings (registry_bind (Callable (5::nat)) (Callable 1) \<lparr>r_bindings = Map.empty, r_world = 0::nat\<rparr>)
       (Callable 6) = None
   \<and> fst (registry_get demo_call (Callable 6)
       (registry_bind (Callable 5) (Callable 1) \<lparr>r_bindings = Map.empty, r_world = 0\<rparr>)) = Inl KeyError"
  using unbound_get_raises_KeyError
      [of demo_call "[Bind (Callable 5) (Callable 1), Get (Callable 5), Get (Callable 7)]" 0 "Callable 6"
          "registry_bind (Callable 5) (Callable 1) \<lparr>r_bindings = Map.empty, r_world = 0\<rparr>"]
  by (simp add: demo_defs)

section \<open>Properties of the module-level functions\<close>

lemma bind_all_append: "bind_all (ps @ qs) s = bind_all qs (bind_all ps s)"
  by (induction ps s rule: bind_all.induct) simp_all

lemma bind_all_snoc: "bind_all (ps @ [e]) s = spec_apply_entry (bind_all ps s) e"
  by (cases e rule: entry_key.cases) (simp_all add: bind_all_append add_def)

lemma spec_apply_entry_bindings:
  "bindings (spec_apply_entry s e) = (bindings s)(entry_key e \<mapsto> entry_impl e)"
  by (cases e rule: entry_key.cases) (simp_all add: add_def bind_simps)

lemma bind_all_refines_spec: "bind_all ps s = spec_bind_all ps s"
  by (induction ps rule: rev_induct) (simp_all add: spec_bind_all_def bind_all_snoc)

lemma bind_all_last_wins:
  "bindings (bind_all ps s) k =
     (case find (\<lambda>e. entry_key e = k) (rev ps) of
        None \<Rightarrow> bindings s k
      | Some e \<Rightarrow> Some (entry_impl e))"
  by (induction ps rule: rev_induct) (simp_all add: bind_all_snoc spec_apply_entry_bindings)

text \<open>
  C6. \<^verbatim>\<open>bind_all(A, (B, implB))\<close> leaves exactly the state of \<^verbatim>\<open>bind(A, A)\<close> then
  \<^verbatim>\<open>bind(B, implB)\<close>. For every argument list, \<^verbatim>\<open>bind_all\<close> is the specification's
  application of each entry in order, a bare provider bound to itself and a pair as
  given; the factory it leaves for a key is that of the last entry for the key, or the old
  one when no entry names the key; the instance cache and the program state are untouched.
\<close>

theorem bind_all_is_binds_in_order:
  "bind_all [Bare A, Binding (B, implB)] s = bind B implB (bind A A s)
   \<and> bind_all ps s = spec_bind_all ps s
   \<and> bindings (bind_all ps s) k =
       (case find (\<lambda>e. entry_key e = k) (rev ps) of
          None \<Rightarrow> bindings s k
        | Some e \<Rightarrow> Some (entry_impl e))
   \<and> instances (bind_all ps s) = instances s
   \<and> world (bind_all ps s) = world s"
  by (simp add: bind_all_refines_spec [symmetric] bind_all_last_wins bind_all_instances bind_all_world)

theorem bind_all_is_binds_in_order_witness:
  "bindings (bind_all [Bare (Callable 1), Binding (Callable 2, Callable 3), Binding (Callable 1, Callable 4)]
       (ProviderRegistry_init (0::nat) :: (nat, nat \<times> nat, nat) di_state)) (Callable 1)
     = Some (Callable 4)
   \<and> bindings (bind_all [Bare (Callable 1), Binding (Callable 2, Callable 3), Binding (Callable 1, Callable 4)]
       (ProviderRegistry_init (0::nat) :: (nat, nat \<times> nat, nat) di_state)) (Callable 2)
     = Some (Callable 3)
   \<and> bindings (bind_all [Bare (Callable 1), Binding (Callable 2, Callable 3), Binding (Callable 1, Callable 4)]
       (ProviderRegistry_init (0::nat) :: (nat, nat \<times> nat, nat) di_state)) (Callable 7)
     = None"
  using bind_all_is_binds_in_order
      [of "Callable 1" "Callable 2" "Callable 3" "ProviderRegistry_init (0::nat) :: (nat, nat \<times> nat, nat) di_state"
          "[Bare (Callable 1), Binding (Callable 2, Callable 3), Binding (Callable 1, Callable 4)]"
          "Callable 1"]
  by (simp add: demo_defs spec_bind_all_def add_def)

lemma comprehension_collect:
  "comprehension call fs acc w =
     (case spec_collect call fs w of
        (Inl e, w') \<Rightarrow> (Inl e, w')
      | (Inr vs, w') \<Rightarrow> (Inr (acc @ vs), w'))"
proof (induction fs arbitrary: acc w)
  case Nil
  show ?case by simp
next
  case (Cons f fs)
  show ?case
  proof (cases "invoke call f w")
    case (Pair res w1)
    show ?thesis
    proof (cases res)
      case (Inl e)
      with Pair show ?thesis by simp
    next
      case (Inr v)
      with Pair Cons.IH [of "acc @ [v]" w1] show ?thesis
        by (simp split: prod.splits sum.splits)
    qed
  qed
qed

text \<open>
  C7. \<^verbatim>\<open>provide_many(I, impls)\<close> is a binding for \<open>I\<close> whose factory, when invoked,
  invokes each element of \<open>impls\<close> in order and returns the list of the results (or
  raises what the first failing element raises); \<^verbatim>\<open>provide_many(I, [f1, f2])()\<close>
  returns \<^verbatim>\<open>[f1(), f2()]\<close>, \<open>f2\<close> being called in the state \<open>f1\<close> leaves.
\<close>

theorem provide_many_collects_in_order:
  "fst (provide_many I impls) = I
   \<and> invoke call (snd (provide_many I impls)) w =
       (case spec_collect call impls w of
          (Inl e, w') \<Rightarrow> (Inl e, w')
        | (Inr vs, w') \<Rightarrow> (Inr (PyList vs), w'))
   \<and> (invoke call f1 w = (Inr v1, w1) \<and> invoke call f2 w1 = (Inr v2, w2) \<longrightarrow>
        invoke call (snd (provide_many I [f1, f2])) w = (Inr (PyList [v1, v2]), w2))"
  by (simp add: provide_many_def comprehension_collect split: prod.splits sum.splits)

theorem provide_many_collects_in_order_witness:
  "invoke demo_call (Callable 1) 0 = (Inr (Obj (1, 0)), 1)
   \<and> invoke demo_call (Callable 2) 1 = (Inr (Obj (2, 1)), 2)
   \<and> invoke demo_call (snd (provide_many (Callable 9) [Callable 1, Callable 2])) 0
       = (Inr (PyList [Obj (1, 0), Obj (2, 1)]), 2)
   \<and> fst (get demo_call (Callable 9)
       (bind_all [Binding (provide_many (Callable 9) [Callable 1, Callable 2])] (ProviderRegistry_init 0)))
       = Inr (PyList [Obj (1, 0), Obj (2, 1)])"
  using provide_many_collects_in_order
      [of "Callable 9" "[Callable 1, Callable 2]" demo_call 0 "Callable 1" "Obj (1, 0)" 1 "Callable 2"
          "Obj (2, 1)" 2]
  by (simp add: demo_defs provide_many_def)

section \<open>Properties of injection\<close>

lemma annotate_distinct: "distinct (map fst d) \<Longrightarrow> distinct (map fst (annotate d x))"
  by (cases "(d, x)" rule: annotate.cases) (simp_all add: distinct_update)

lemma foldl_annotate_distinct:
  "distinct (map fst d) \<Longrightarrow> distinct (map fst (foldl annotate d params))"
  by (induction params arbitrary: d) (simp_all add: annotate_distinct)

lemma annotations_distinct: "distinct (map fst (getfullargspec_annotations g))"
  by (simp add: getfullargspec_annotations_def foldl_annotate_distinct split: option.splits)

lemma annotate_other: "n \<noteq> fst x \<Longrightarrow> map_of (annotate d x) n = map_of d n"
  by (cases "(d, x)" rule: annotate.cases) (simp_all add: update_conv')

lemma foldl_annotate_other:
  "n \<notin> fst ` set params \<Longrightarrow> map_of (foldl annotate d params) n = map_of d n"
  by (induction params arbitrary: d) (simp_all add: annotate_other)

lemma getitem_is_method: "ProviderRegistry_getitem call k s = ProviderRegistry_get call k s"
  by (simp add: ProviderRegistry_getitem_def)

lemma wrapper_loop_skip:
  "\<not> (bindings s provider \<noteq> None \<and> map_of kwargs name = None) \<Longrightarrow>
   wrapper_loop call ((name, provider) # items) kwargs s = wrapper_loop call items kwargs s"
  by auto

lemma wrapper_loop_step:
  assumes "bindings s provider \<noteq> None" and "map_of kwargs name = None"
    and "wrapper_loop call ((name, provider) # items) kwargs s = (Inr kwargs', s')"
  shows "\<exists>v s1. ProviderRegistry_get call provider s = (Inr v, s1)
           \<and> wrapper_loop call items (AList.update name v kwargs) s1 = (Inr kwargs', s')"
proof (cases "ProviderRegistry_get call provider s")
  case (Pair res s1)
  show ?thesis
  proof (cases res)
    case (Inl e)
    with Pair assms show ?thesis by (simp add: getitem_is_method)
  next
    case (Inr v)
    with Pair assms show ?thesis by (simp add: getitem_is_method)
  qed
qed

lemma wrapper_loop_keeps:
  "wrapper_loop call items kwargs s = (Inr kwargs', s') \<Longrightarrow>
   bindings s' = bindings s
   \<and> (\<forall>n x. map_of kwargs n = Some x \<longrightarrow> map_of kwargs' n = Some x)
   \<and> (\<forall>k v. instances s k = Some v \<longrightarrow> instances s' k = Some v)"
proof (induction items arbitrary: kwargs s)
  case Nil
  then show ?case by simp
next
  case (Cons item items)
  obtain name provider where item: "item = (name, provider)" by (cases item)
  show ?case
  proof (cases "bindings s provider \<noteq> None \<and> map_of kwargs name = None")
    case False
    from Cons.prems have "wrapper_loop call ((name, provider) # items) kwargs s = (Inr kwargs', s')"
      unfolding item .
    with wrapper_loop_skip [OF False, of call items]
    have "wrapper_loop call items kwargs s = (Inr kwargs', s')" by metis
    then show ?thesis by (rule Cons.IH)
  next
    case True
    with Cons.prems item obtain v s1 where
      g: "ProviderRegistry_get call provider s = (Inr v, s1)" and
      rest: "wrapper_loop call items (AList.update name v kwargs) s1 = (Inr kwargs', s')"
      using wrapper_loop_step [of s provider kwargs name call items kwargs' s'] by blast
    from Cons.IH [OF rest]
    have ih: "bindings s' = bindings s1
       \<and> (\<forall>n x. map_of (AList.update name v kwargs) n = Some x \<longrightarrow> map_of kwargs' n = Some x)
       \<and> (\<forall>k v. instances s1 k = Some v \<longrightarrow> instances s' k = Some v)" .
    have b: "bindings s1 = bindings s"
      using g get_keeps_bindings [of call provider s] by simp
    have i: "\<forall>k v. instances s k = Some v \<longrightarrow> instances s1 k = Some v"
      using g get_keeps_instances [of s _ _ call provider] by simp
    have k: "\<forall>n x. map_of kwargs n = Some x \<longrightarrow> map_of (AList.update name v kwargs) n = Some x"
      using True by (auto simp: update_conv')
    from ih b i k show ?thesis by simp
  qed
qed

lemma wrapper_loop_injects:
  "wrapper_loop call items kwargs s = (Inr kwargs', s') \<Longrightarrow> distinct (map fst items) \<Longrightarrow>
   (n, K) \<in> set items \<Longrightarrow> bindings s K \<noteq> None \<Longrightarrow> map_of kwargs n = None \<Longrightarrow>
   \<exists>v. map_of kwargs' n = Some v \<and> instances s' K = Some v"
proof (induction items arbitrary: kwargs s)
  case Nil
  then show ?case by simp
next
  case (Cons item items)
  obtain name provider where item: "item = (name, provider)" by (cases item)
  from Cons.prems(2) item have dist: "distinct (map fst items)" and fresh_name: "name \<notin> fst ` set items"
    by simp_all
  show ?case
  proof (cases "bindings s provider \<noteq> None \<and> map_of kwargs name = None")
    case False
    with Cons.prems(3,4,5) item have mem: "(n, K) \<in> set items" by auto
    from Cons.prems(1) have "wrapper_loop call ((name, provider) # items) kwargs s = (Inr kwargs', s')"
      unfolding item .
    with wrapper_loop_skip [OF False, of call items]
    have rest: "wrapper_loop call items kwargs s = (Inr kwargs', s')" by metis
    show ?thesis by (rule Cons.IH [OF rest dist mem Cons.prems(4) Cons.prems(5)])
  next
    case True
    with Cons.prems(1) item obtain v s1 where
      g: "ProviderRegistry_get call provider s = (Inr v, s1)" and
      rest: "wrapper_loop call items (AList.update name v kwargs) s1 = (Inr kwargs', s')"
      using wrapper_loop_step [of s provider kwargs name call items kwargs' s'] by blast
    have cached: "instances s1 provider = Some v"
      using g by (rule get_result_cached)
    have b: "bindings s1 = bindings s"
      using g get_keeps_bindings [of call provider s] by simp
    note keeps = wrapper_loop_keeps [OF rest]
    show ?thesis
    proof (cases "(n, K) = (name, provider)")
      case True
      have "map_of (AList.update name v kwargs) name = Some v" by (simp add: update_conv')
      with keeps have "map_of kwargs' name = Some v" by blast
      moreover from keeps cached have "instances s' provider = Some v" by blast
      ultimately show ?thesis using True by simp
    next
      case False
      with Cons.prems(3) item have mem: "(n, K) \<in> set items" by auto
      with fresh_name have "n \<noteq> name" by (auto simp: image_iff)
      with Cons.prems(5) have fresh: "map_of (AList.update name v kwargs) n = None"
        by (simp add: update_conv')
      from Cons.prems(4) b have bound: "bindings s1 K \<noteq> None" by simp
      show ?thesis by (rule Cons.IH [OF rest dist mem bound fresh])
    qed
  qed
qed

lemma inject_calls_target:
  "wrapper_loop call (getfullargspec_annotations g) kwargs s = (Inr kwargs', s') \<Longrightarrow>
   inject call g args kwargs s =
     (case fn_call g args kwargs' (world s') of (res, w') \<Rightarrow> (res, s'\<lparr>world := w'\<rparr>))"
  by (simp add: inject_def)

text \<open>
  The loop always ends; it ends without an exception whenever no class or function raises.
\<close>

lemma invoke_returns:
  "\<forall>q w. \<exists>v w'. call q w = (Inr v, w') \<Longrightarrow> \<exists>v w'. invoke call f w = (Inr v, w')"
  "\<forall>q w. \<exists>v w'. call q w = (Inr v, w') \<Longrightarrow> \<exists>vs w'. comprehension call fs acc w = (Inr vs, w')"
proof (induction call f w and call fs acc w rule: invoke_comprehension.induct)
  case (1 call p w)
  then show ?case by simp
next
  case (2 call impls w)
  from "2.IH" [OF "2.prems"] obtain vs w' where "comprehension call impls [] w = (Inr vs, w')"
    by blast
  then show ?case by simp
next
  case (3 call acc w)
  show ?case by simp
next
  case (4 call provider rest acc w)
  from "4.IH"(1) [OF "4.prems"] obtain v w1 where here: "invoke call provider w = (Inr v, w1)"
    by blast
  from "4.IH"(2) [OF here [symmetric] refl "4.prems"]
  obtain vs w' where "comprehension call rest (acc @ [v]) w1 = (Inr vs, w')" by blast
  with here show ?case by simp
qed

lemma get_returns:
  assumes "\<forall>q w. \<exists>v w'. call q w = (Inr v, w')" and "bindings s k \<noteq> None"
  shows "\<exists>v s1. ProviderRegistry_get call k s = (Inr v, s1)"
proof (cases "instances s k")
  case (Some v)
  then show ?thesis by (simp add: ProviderRegistry_get_def)
next
  case None
  from assms(2) obtain impl where impl: "bindings s k = Some impl" by blast
  from invoke_returns(1) [OF assms(1)] obtain v w' where "invoke call impl (world s) = (Inr v, w')"
    by blast
  with None impl show ?thesis by (simp add: ProviderRegistry_get_def)
qed

lemma wrapper_loop_returns:
  "\<forall>q w. \<exists>v w'. call q w = (Inr v, w') \<Longrightarrow>
   \<exists>kwargs' s'. wrapper_loop call items kwargs s = (Inr kwargs', s')"
proof (induction items arbitrary: kwargs s)
  case Nil
  show ?case by simp
next
  case (Cons item items)
  obtain name provider where item: "item = (name, provider)" by (cases item)
  show ?case
  proof (cases "bindings s provider \<noteq> None \<and> map_of kwargs name = None")
    case False
    with Cons.IH [OF Cons.prems, of kwargs s] item show ?thesis by auto
  next
    case True
    with get_returns [OF Cons.prems, of s provider]
    obtain v s1 where g: "ProviderRegistry_get call provider s = (Inr v, s1)" by blast
    from Cons.IH [OF Cons.prems, of "AList.update name v kwargs" s1]
    obtain kwargs' s' where "wrapper_loop call items (AList.update name v kwargs) s1 = (Inr kwargs', s')"
      by blast
    with True g item show ?thesis by (simp add: getitem_is_method)
  qed
qed

lemmas inject_defs = inject_def getfullargspec_annotations_def demo_service_def
  demo_typed_service_def py_def_def bind_arguments_def demo_body_def

text \<open>
  C4. Let \<open>p\<close> be a name whose annotation in \<open>g\<close> is a key \<open>K\<close> of the binding
  table, and let the resolution loop of the wrapper end without an exception, with the
  keyword arguments \<open>kwargs'\<close>. Then the wrapper is the call of \<open>g\<close> with the caller's
  positional arguments and \<open>kwargs'\<close>. If the caller gave no keyword \<open>p\<close>, then
  \<open>kwargs'\<close> binds \<open>p\<close> to the instance the registry holds for \<open>K\<close>, the one
  \<^verbatim>\<open>get(K)\<close> returns. Every keyword the caller gave has the caller's value in
  \<open>kwargs'\<close>.
\<close>

theorem inject_fills_unsupplied_keeps_supplied:
  assumes ann: "map_of (getfullargspec_annotations g) p = Some K"
    and bound: "bindings s K \<noteq> None"
    and loop: "wrapper_loop call (getfullargspec_annotations g) kwargs s = (Inr kwargs', s')"
  shows "inject call g args kwargs s =
       (case fn_call g args kwargs' (world s') of (res, w') \<Rightarrow> (res, s'\<lparr>world := w'\<rparr>))
     \<and> (map_of kwargs p = None \<longrightarrow>
          (\<exists>v. map_of kwargs' p = Some v \<and> instances s' K = Some v \<and> get call K s' = (Inr v, s')))
     \<and> (\<forall>n x. map_of kwargs n = Some x \<longrightarrow> map_of kwargs' n = Some x)"
proof (intro conjI impI)
  show "inject call g args kwargs s =
       (case fn_call g args kwargs' (world s') of (res, w') \<Rightarrow> (res, s'\<lparr>world := w'\<rparr>))"
    using loop by (rule inject_calls_target)
next
  assume absent: "map_of kwargs p = None"
  from ann have mem: "(p, K) \<in> set (getfullargspec_annotations g)" by (rule map_of_SomeD)
  from wrapper_loop_injects [OF loop annotations_distinct mem bound absent]
  obtain v where v: "map_of kwargs' p = Some v" "instances s' K = Some v" by blast
  from v(2) have "get call K s' = (Inr v, s')" by (simp add: get_is_method get_cached)
  with v show "\<exists>v. map_of kwargs' p = Some v \<and> instances s' K = Some v \<and> get call K s' = (Inr v, s')"
    by blast
next
  show "\<forall>n x. map_of kwargs n = Some x \<longrightarrow> map_of kwargs' n = Some x"
    using wrapper_loop_keeps [OF loop] by blast
qed

theorem inject_fills_unsupplied_keeps_supplied_witness:
  "map_of (getfullargspec_annotations demo_service) ''repo'' = Some (Callable 1)
   \<and> bindings (bind (Callable 1) (Callable 3) (ProviderRegistry_init 0 :: (nat, nat \<times> nat, nat) di_state))
        (Callable 1) = Some (Callable 3)
   \<and> fst (wrapper_loop demo_call (getfullargspec_annotations demo_service) []
        (bind (Callable 1) (Callable 3) (ProviderRegistry_init 0))) = Inr [(''repo'', Obj (3, 0))]
   \<and> fst (inject demo_call demo_service [] []
        (bind (Callable 1) (Callable 3) (ProviderRegistry_init 0))) = Inr (Obj (3, 0))
   \<and> fst (wrapper_loop demo_call (getfullargspec_annotations demo_service) [(''repo'', Obj (9, 9))]
        (bind (Callable 1) (Callable 3) (ProviderRegistry_init 0))) = Inr [(''repo'', Obj (9, 9))]
   \<and> fst (inject demo_call demo_service [] [(''repo'', Obj (9, 9))]
        (bind (Callable 1) (Callable 3) (ProviderRegistry_init 0))) = Inr (Obj (9, 9))
   \<and> world (snd (inject demo_call demo_service [] [(''repo'', Obj (9, 9))]
        (bind (Callable 1) (Callable 3) (ProviderRegistry_init 0)))) = 0"
  using inject_fills_unsupplied_keeps_supplied
      [of demo_service "''repo''" "Callable 1"
          "bind (Callable 1) (Callable 3) (ProviderRegistry_init 0)" demo_call "[]"
          "[(''repo'', Obj (3, 0))]"
          "snd (wrapper_loop demo_call (getfullargspec_annotations demo_service) []
            (bind (Callable 1) (Callable 3) (ProviderRegistry_init 0)))" "[]"]
    inject_fills_unsupplied_keeps_supplied
      [of demo_service "''repo''" "Callable 1"
          "bind (Callable 1) (Callable 3) (ProviderRegistry_init 0)" demo_call "[(''repo'', Obj (9, 9))]"
          "[(''repo'', Obj (9, 9))]"
          "snd (wrapper_loop demo_call (getfullargspec_annotations demo_service) [(''repo'', Obj (9, 9))]
            (bind (Callable 1) (Callable 3) (ProviderRegistry_init 0)))" "[]"]
  by (simp add: demo_defs inject_defs)

text \<open>
  C10. The annotations the wrapper iterates over hold the return annotation under the
  name \<^verbatim>\<open>return\<close> (no parameter can have that name). When it is a key \<open>K\<close> of the
  binding table and the caller passes no keyword \<^verbatim>\<open>return\<close>, the target is called
  with a keyword argument \<^verbatim>\<open>return\<close> bound to the instance the registry holds for
  \<open>K\<close>.
\<close>

theorem inject_passes_return_annotation:
  assumes ret: "fn_return g = Some K"
    and not_param: "''return'' \<notin> fst ` set (fn_params g)"
    and bound: "bindings s K \<noteq> None"
    and absent: "map_of kwargs ''return'' = None"
    and loop: "wrapper_loop call (getfullargspec_annotations g) kwargs s = (Inr kwargs', s')"
  shows "map_of (getfullargspec_annotations g) ''return'' = Some K
     \<and> (\<exists>v. map_of kwargs' ''return'' = Some v \<and> instances s' K = Some v)
     \<and> inject call g args kwargs s =
         (case fn_call g args kwargs' (world s') of (res, w') \<Rightarrow> (res, s'\<lparr>world := w'\<rparr>))"
proof (intro conjI)
  show ann: "map_of (getfullargspec_annotations g) ''return'' = Some K"
    using ret not_param by (simp add: getfullargspec_annotations_def foldl_annotate_other)
  then have mem: "(''return'', K) \<in> set (getfullargspec_annotations g)" by (rule map_of_SomeD)
  show "\<exists>v. map_of kwargs' ''return'' = Some v \<and> instances s' K = Some v"
    by (rule wrapper_loop_injects [OF loop annotations_distinct mem bound absent])
  show "inject call g args kwargs s =
         (case fn_call g args kwargs' (world s') of (res, w') \<Rightarrow> (res, s'\<lparr>world := w'\<rparr>))"
    using loop by (rule inject_calls_target)
qed

theorem inject_passes_return_annotation_witness:
  "fn_return demo_typed_service = Some (Callable 2)
   \<and> ''return'' \<notin> fst ` set (fn_params demo_typed_service)
   \<and> bindings (bind_all [Bare (Callable 1), Bare (Callable 2)]
        (ProviderRegistry_init 0 :: (nat, nat \<times> nat, nat) di_state)) (Callable 2) = Some (Callable 2)
   \<and> getfullargspec_annotations demo_typed_service = [(''return'', Callable 2), (''repo'', Callable 1)]
   \<and> fst (wrapper_loop demo_call (getfullargspec_annotations demo_typed_service) []
        (bind_all [Bare (Callable 1), Bare (Callable 2)] (ProviderRegistry_init 0)))
      = Inr [(''return'', Obj (2, 0)), (''repo'', Obj (1, 1))]
   \<and> instances (snd (wrapper_loop demo_call (getfullargspec_annotations demo_typed_service) []
        (bind_all [Bare (Callable 1), Bare (Callable 2)] (ProviderRegistry_init 0)))) (Callable 2)
      = Some (Obj (2, 0))
   \<and> fst (inject demo_call demo_typed_service [] []
        (bind_all [Bare (Callable 1), Bare (Callable 2)] (ProviderRegistry_init 0))) = Inl TypeError"
  using inject_passes_return_annotation
      [of demo_typed_service "Callable 2"
          "bind_all [Bare (Callable 1), Bare (Callable 2)] (ProviderRegistry_init 0)" "[]" demo_call
          "[(''return'', Obj (2, 0)), (''repo'', Obj (1, 1))]"
          "snd (wrapper_loop demo_call (getfullargspec_annotations demo_typed_service) []
            (bind_all [Bare (Callable 1), Bare (Callable 2)] (ProviderRegistry_init 0)))" "[]"]
  by (simp add: demo_defs inject_defs)

text \<open>
  C5 does not hold of the code. For \<^verbatim>\<open>def service(repo: C1)\<close> with \<open>C1\<close> bound, the
  plain call \<^verbatim>\<open>service(x)\<close> returns with \<open>repo = x\<close>; the wrapped call
  \<^verbatim>\<open>inject(service)(x)\<close> finds no keyword \<^verbatim>\<open>repo\<close>, injects one beside the
  positional \<open>x\<close>, and the call of the target raises TypeError (two values for one
  parameter).
\<close>

theorem inject_positional_dependency_raises:
  "fn_call demo_service [Obj (7, 7)] [] 0 = (Inr (Obj (7, 7)), 0)
   \<and> fst (wrapper_loop demo_call (getfullargspec_annotations demo_service) []
        (bind (Callable 1) (Callable 3) (ProviderRegistry_init 0))) = Inr [(''repo'', Obj (3, 0))]
   \<and> fst (inject demo_call demo_service [Obj (7, 7)] []
        (bind (Callable 1) (Callable 3) (ProviderRegistry_init 0))) = Inl TypeError"
  by (simp add: demo_defs inject_defs)

section \<open>Properties of the domain mixins\<close>

text \<open>
  C9. \<^verbatim>\<open>is_valid(v)\<close> is true exactly when \<^verbatim>\<open>parse(v)\<close> returns, and it then returns
  \<open>v\<close> itself; it is false exactly when \<^verbatim>\<open>parse(v)\<close> raises a validation error;
  \<^verbatim>\<open>is_valid\<close> is \<^verbatim>\<open>is_ok\<close> of \<^verbatim>\<open>monadic_parse\<close>, which wraps the outcome of
  \<^verbatim>\<open>parse\<close>.
\<close>

theorem is_valid_iff_parse_returns:
  "(Primitive_is_valid validate v \<longleftrightarrow> Primitive_parse validate v = Inr v)
   \<and> (\<not> Primitive_is_valid validate v \<longleftrightarrow> (\<exists>err. Primitive_parse validate v = Inl err))
   \<and> (\<forall>r. Primitive_parse validate v = Inr r \<longrightarrow> r = v)
   \<and> Primitive_is_valid validate v = is_ok (Primitive_monadic_parse validate v)
   \<and> Primitive_monadic_parse validate v =
       (case Primitive_parse validate v of Inr x \<Rightarrow> Ok x | Inl err \<Rightarrow> Err err)"
  by (cases "validate v")
     (simp_all add: Primitive_is_valid_def Primitive_monadic_parse_def monadic_def Primitive_parse_def)

theorem is_valid_iff_parse_returns_witness:
  "Primitive_is_valid demo_validate 3
   \<and> Primitive_parse demo_validate 3 = Inr 3
   \<and> \<not> Primitive_is_valid demo_validate (- 1)
   \<and> Primitive_parse demo_validate (- 1) = Inl ''ensure this value is greater than 0''"
  using is_valid_iff_parse_returns [of demo_validate 3]
    is_valid_iff_parse_returns [of demo_validate "- 1"]
  by (simp add: Primitive_parse_def demo_validate_def)






lemma hash_items_hashable:
  "list_all (\<lambda>item. hv (snd item) \<noteq> None) items \<Longrightarrow> \<exists>hl. hash_items hs hv ht items = Inr hl"
  by (induction items) auto





end
